theory Spec2Isabelle
  imports Main
begin

section \<open>JSON values and Python dictionaries\<close>

text \<open>
  An annotation, a request payload and an Elasticsearch query are Python dictionaries
  holding JSON values. A dictionary is an association list whose order stands for
  the order in which Python iterates over it; numbers are integers (JSON numbers with
  a fractional part are outside the model) and strings are ASCII.
\<close>

datatype json =
    JNull
  | JBool bool
  | JNum int
  | JStr string
  | JArr "json list"
  | JObj "(string \<times> json) list"

type_synonym dict = "(string \<times> json) list"

datatype py_error =
    KeyError string
  | TypeError
  | AttributeError
  | RuntimeError string int

text \<open>Python truthiness, as tested by \<^verbatim>\<open>if x:\<close>.\<close>

fun truthy :: "json \<Rightarrow> bool" where
  "truthy JNull = False"
| "truthy (JBool b) = b"
| "truthy (JNum n) = (n \<noteq> 0)"
| "truthy (JStr s) = (s \<noteq> [])"
| "truthy (JArr xs) = (xs \<noteq> [])"
| "truthy (JObj m) = (m \<noteq> [])"

text \<open>
  Python's \<^verbatim>\<open>==\<close> on JSON values: \<^verbatim>\<open>True == 1\<close> and \<^verbatim>\<open>False == 0\<close>,
  lists are compared element by element, dictionaries by their keys and the values
  under them, whatever the order.
\<close>

fun py_eq :: "json \<Rightarrow> json \<Rightarrow> bool" where
  "py_eq JNull y = (case y of JNull \<Rightarrow> True | _ \<Rightarrow> False)"
| "py_eq (JBool a) y =
     (case y of JBool b \<Rightarrow> a = b | JNum n \<Rightarrow> (if a then 1 else 0) = n | _ \<Rightarrow> False)"
| "py_eq (JNum m) y =
     (case y of JBool b \<Rightarrow> m = (if b then 1 else 0) | JNum n \<Rightarrow> m = n | _ \<Rightarrow> False)"
| "py_eq (JStr s) y = (case y of JStr t \<Rightarrow> s = t | _ \<Rightarrow> False)"
| "py_eq (JArr xs) y =
     (case y of JArr ys \<Rightarrow> list_all2 py_eq xs ys | _ \<Rightarrow> False)"
| "py_eq (JObj a) y =
     (case y of
        JObj b \<Rightarrow>
          length a = length b \<and>
          list_all (\<lambda>(k, v). case map_of b k of None \<Rightarrow> False | Some w \<Rightarrow> py_eq v w) a
      | _ \<Rightarrow> False)"

text \<open>\<^verbatim>\<open>d.get(k)\<close> and \<^verbatim>\<open>d.get(k, default)\<close>.\<close>

definition dict_get :: "dict \<Rightarrow> string \<Rightarrow> json option" where
  "dict_get d k = map_of d k"

definition dict_get_default :: "dict \<Rightarrow> string \<Rightarrow> json \<Rightarrow> json" where
  "dict_get_default d k dflt = (case map_of d k of None \<Rightarrow> dflt | Some v \<Rightarrow> v)"

text \<open>\<^verbatim>\<open>d.pop(k, None)\<close>: the key is removed when present, nothing is raised.\<close>

fun dict_pop :: "string \<Rightarrow> dict \<Rightarrow> dict" where
  "dict_pop k [] = []"
| "dict_pop k ((k', v) # d) = (if k' = k then dict_pop k d else (k', v) # dict_pop k d)"

text \<open>\<^verbatim>\<open>d[k] = v\<close>: an existing key keeps its place, a new key is added.\<close>

fun dict_setitem :: "string \<Rightarrow> json \<Rightarrow> dict \<Rightarrow> dict" where
  "dict_setitem k v [] = [(k, v)]"
| "dict_setitem k v ((k', v') # d) =
     (if k' = k then (k, v) # d else (k', v') # dict_setitem k v d)"

text \<open>\<^verbatim>\<open>d.update(other)\<close>: every item of \<open>other\<close> is stored into \<open>d\<close>.\<close>

fun dict_update :: "dict \<Rightarrow> dict \<Rightarrow> dict" where
  "dict_update d [] = d"
| "dict_update d ((k, v) # other) = dict_update (dict_setitem k v d) other"

text \<open>
  Iterating over a value (\<^verbatim>\<open>for role in v\<close>): a list gives its elements, a string
  its characters, a dictionary its keys; \<open>None\<close>, a boolean or a number is not
  iterable (\<open>TypeError\<close>).
\<close>

fun py_iter :: "json \<Rightarrow> json list option" where
  "py_iter (JArr xs) = Some xs"
| "py_iter (JStr s) = Some (map (\<lambda>c. JStr [c]) s)"
| "py_iter (JObj m) = Some (map (\<lambda>kv. JStr (fst kv)) m)"
| "py_iter JNull = None"
| "py_iter (JBool b) = None"
| "py_iter (JNum n) = None"


section \<open>The suppression list (src/h/api/nipsa/models.py)\<close>

text \<open>
  The table \<^verbatim>\<open>nipsa_user\<close> has the single column \<^verbatim>\<open>user_id\<close>;
  \<^verbatim>\<open>NipsaUser.get_by_id\<close> returns the row with the given user id, or \<open>None\<close>.
\<close>

type_synonym nipsa_user = "string list"

definition get_by_id :: "nipsa_user \<Rightarrow> string \<Rightarrow> string option" where
  "get_by_id tbl user_id = find (\<lambda>row. row = user_id) tbl"

text \<open>
  Modelled from the spec: \<^verbatim>\<open>nipsa_models.user_read\<close>, which views.py calls, is not
  defined in src/h/api/nipsa/models.py. The spec's suppression store is keyed and
  presence-only (``\<open>isSuppressed(userId)\<close>: true iff \<open>userId\<close> has a
  SuppressionEntry''), so \<open>user_read\<close> is the lookup of the row.
\<close>

definition user_read :: "nipsa_user \<Rightarrow> string \<Rightarrow> string option" where
  "user_read tbl user_id = get_by_id tbl user_id"


section \<open>The annotation views (src/h/api/views.py)\<close>

text \<open>
  The private functions of the module keep their names without the leading underscore
  (\<^verbatim>\<open>_create_annotation\<close> is \<open>create_annotation\<close>).

  What a view can change outside the objects it is handed: the annotations given to
  the record store, the events given to the registry, and the status code of the
  response. The suppression table is only read.
\<close>

record world =
  nipsa_table :: nipsa_user
  saved :: "dict list"
  notified :: "(string \<times> dict) list"
  status_code :: int

text \<open>The authenticated user: \<^verbatim>\<open>user.id\<close> and \<^verbatim>\<open>user.consumer.key\<close>.\<close>

record user =
  id' :: string
  consumer_key :: string

datatype 'a outcome = Returned 'a | Raised py_error

definition PROTECTED_FIELDS :: "string list" where
  "PROTECTED_FIELDS = [''created'', ''updated'', ''user'', ''consumer'', ''id'']"

text \<open>The loop \<^verbatim>\<open>for field in PROTECTED_FIELDS: fields.pop(field, None)\<close>.\<close>

fun pop_fields :: "string list \<Rightarrow> dict \<Rightarrow> dict" where
  "pop_fields [] fields0 = fields0"
| "pop_fields (field # rest) fields0 = pop_fields rest (dict_pop field fields0)"

text \<open>
  Modelled from the spec: \<^verbatim>\<open>Annotation.save\<close> belongs to the model class
  \<^verbatim>\<open>h.api.models.Annotation\<close>, which is not under src. It is the record store's
  \<open>put(record)\<close>: the annotation handed over is what is stored. The identifier and
  the timestamps that the store assigns on its side are not modelled.
\<close>

definition save :: "dict \<Rightarrow> world \<Rightarrow> world" where
  "save annotation w = w\<lparr>saved := annotation # saved w\<rparr>"

definition publish_annotation_event :: "dict \<Rightarrow> string \<Rightarrow> world \<Rightarrow> world" where
  "publish_annotation_event annotation action w =
     w\<lparr>notified := (action, annotation) # notified w\<rparr>"

definition api_error :: "string \<Rightarrow> int \<Rightarrow> world \<Rightarrow> dict \<times> world" where
  "api_error reason code w =
     ([(''status'', JStr ''failure''), (''reason'', JStr reason)], w\<lparr>status_code := code\<rparr>)"

definition nipsa :: "nipsa_user \<Rightarrow> string \<Rightarrow> bool" where
  "nipsa tbl user_id = (if user_read tbl user_id \<noteq> None then True else False)"

text \<open>
  \<open>create_annotation\<close> returns the caller's \<^verbatim>\<open>fields\<close> as the call leaves them
  (\<open>fields0\<close> is the mapping on entry, \<open>fields1\<close> the same object after the loop), the
  annotation, and the world after \<^verbatim>\<open>annotation.save()\<close>.
\<close>

definition create_annotation :: "dict \<Rightarrow> user \<Rightarrow> world \<Rightarrow> dict \<times> dict \<times> world" where
  "create_annotation fields0 usr w =
     (let fields1 = pop_fields PROTECTED_FIELDS fields0;
          annotation = fields1;
          annotation = dict_setitem ''user'' (JStr (id' usr)) annotation;
          annotation = dict_setitem ''consumer'' (JStr (consumer_key usr)) annotation;
          annotation =
            (if nipsa (nipsa_table w) (id' usr)
             then dict_setitem ''not_in_public_site_areas'' (JBool True) annotation
             else annotation)
      in (fields1, annotation, save annotation w))"

text \<open>
  The view \<open>create\<close>: \<open>json_body\<close> is \<open>None\<close> when reading the request payload raises
  \<open>ValueError\<close>.
\<close>

definition create :: "dict option \<Rightarrow> user \<Rightarrow> world \<Rightarrow> dict outcome \<times> world" where
  "create json_body usr w =
     (case json_body of
        None \<Rightarrow>
          (case api_error ''No JSON payload sent. Annotation not created.'' 400 w of
             (response_info, w1) \<Rightarrow> (Returned response_info, w1))
      | Some fields0 \<Rightarrow>
          (case create_annotation fields0 usr w of
             (fields1, annotation, w1) \<Rightarrow>
               (Returned annotation, publish_annotation_event annotation ''create'' w1)))"

text \<open>
  The loop shared by \<^verbatim>\<open>_anonymize_deletes\<close> (views.py) and \<^verbatim>\<open>anonymize_deletes\<close>
  (store.py):
  \<^verbatim>\<open>
  for action in permissions.keys():
      filtered = [role for role in annotation['permissions'][action] if role != user]
      annotation['permissions'][action] = filtered
  \<close>
  \<open>permissions\<close> is the dictionary under \<^verbatim>\<open>annotation['permissions']\<close> itself, so the
  loop rewrites it in place; an exception leaves it as the earlier iterations made it.
\<close>

fun remove_user :: "json \<Rightarrow> string list \<Rightarrow> dict \<Rightarrow> py_error option \<times> dict" where
  "remove_user usr [] permissions = (None, permissions)"
| "remove_user usr (action # actions) permissions =
     (case map_of permissions action of
        None \<Rightarrow> (Some (KeyError action), permissions)
      | Some roles \<Rightarrow>
          (case py_iter roles of
             None \<Rightarrow> (Some TypeError, permissions)
           | Some rs \<Rightarrow>
               remove_user usr actions
                 (dict_setitem action (JArr (filter (\<lambda>role. \<not> py_eq role usr) rs))
                    permissions)))"

text \<open>
  \<^verbatim>\<open>permissions = annotation.get('permissions', {})\<close> followed by the loop:
  without the key the loop runs over a fresh empty dictionary; a value that is not a
  dictionary has no \<^verbatim>\<open>keys()\<close> (\<open>AttributeError\<close>).
\<close>

definition remove_user_from_permissions :: "json \<Rightarrow> dict \<Rightarrow> py_error option \<times> dict" where
  "remove_user_from_permissions usr annotation =
     (case map_of annotation ''permissions'' of
        None \<Rightarrow> (None, annotation)
      | Some (JObj permissions) \<Rightarrow>
          (case remove_user usr (map fst permissions) permissions of
             (err, permissions1) \<Rightarrow>
               (err, dict_setitem ''permissions'' (JObj permissions1) annotation))
      | Some _ \<Rightarrow> (Some AttributeError, annotation))"

text \<open>
  \<^verbatim>\<open>_anonymize_deletes\<close> of views.py. \<^verbatim>\<open>annotation.pop('user')\<close> has no default:
  it raises \<open>KeyError\<close> when the annotation has no user.
\<close>

definition views_anonymize_deletes :: "dict \<Rightarrow> py_error option \<times> dict" where
  "views_anonymize_deletes annotation =
     (case map_of annotation ''user'' of
        None \<Rightarrow> (Some (KeyError ''user''), annotation)
      | Some usr \<Rightarrow> remove_user_from_permissions usr (dict_pop ''user'' annotation))"

text \<open>
  After \<^verbatim>\<open>annotation.update(fields)\<close> the value under \<^verbatim>\<open>fields['permissions']\<close>, when
  there is one, is the very object under \<^verbatim>\<open>annotation['permissions']\<close>: what the
  anonymization writes into it shows in the caller's \<open>fields\<close> too.
\<close>

definition shared_permissions :: "dict \<Rightarrow> dict \<Rightarrow> dict" where
  "shared_permissions fields1 annotation =
     (case map_of fields1 ''permissions'' of
        None \<Rightarrow> fields1
      | Some _ \<Rightarrow>
          (case map_of annotation ''permissions'' of
             None \<Rightarrow> fields1
           | Some p \<Rightarrow> dict_setitem ''permissions'' p fields1))"

text \<open>
  \<open>update_annotation\<close> returns the exception raised, if any, and the annotation, the
  caller's \<open>fields\<close> and the world as the call leaves them.
\<close>

definition update_annotation ::
  "dict \<Rightarrow> dict \<Rightarrow> bool \<Rightarrow> world \<Rightarrow> py_error option \<times> dict \<times> dict \<times> world" where
  "update_annotation annotation fields0 has_admin_permission w =
     (let fields1 = pop_fields PROTECTED_FIELDS fields0;
          changing_permissions =
            (case map_of fields1 ''permissions'' of
               None \<Rightarrow> False
             | Some p \<Rightarrow> \<not> py_eq p (dict_get_default annotation ''permissions'' (JObj [])))
      in if changing_permissions \<and> \<not> has_admin_permission
         then (Some (RuntimeError ''Not authorized to change annotation permissions.'' 401),
               annotation, fields1, w)
         else
           (let annotation1 = dict_update annotation fields1
            in if truthy (dict_get_default annotation1 ''deleted'' (JBool False))
               then
                 (case views_anonymize_deletes annotation1 of
                    (Some err, annotation2) \<Rightarrow>
                      (Some err, annotation2, shared_permissions fields1 annotation2, w)
                  | (None, annotation2) \<Rightarrow>
                      (None, annotation2, shared_permissions fields1 annotation2,
                       save annotation2 w))
               else (None, annotation1, fields1, save annotation1 w)))"

text \<open>
  The view \<open>update\<close>. \<open>context\<close> is the annotation found for the request,
  \<open>has_admin_permission\<close> the answer of \<^verbatim>\<open>request.has_permission('admin', annotation)\<close>.
  Only a \<open>RuntimeError\<close> is caught and turned into an error response; any other
  exception leaves the view. The result is the outcome, the annotation and the world.
\<close>

definition update :: "dict \<Rightarrow> dict option \<Rightarrow> bool \<Rightarrow> world \<Rightarrow> dict outcome \<times> dict \<times> world" where
  "update context json_body has_admin_permission w =
     (case json_body of
        None \<Rightarrow>
          (case api_error ''No JSON payload sent. Annotation not created.'' 400 w of
             (response_info, w1) \<Rightarrow> (Returned response_info, context, w1))
      | Some fields0 \<Rightarrow>
          (case update_annotation context fields0 has_admin_permission w of
             (Some (RuntimeError reason code), annotation, fields1, w1) \<Rightarrow>
               (case api_error reason code w1 of
                  (response_info, w2) \<Rightarrow> (Returned response_info, annotation, w2))
           | (Some err, annotation, fields1, w1) \<Rightarrow> (Raised err, annotation, w1)
           | (None, annotation, fields1, w1) \<Rightarrow>
               (Returned annotation, annotation,
                publish_annotation_event annotation ''update'' w1)))"


section \<open>The store's hook (src/h/api/store.py)\<close>

text \<open>
  \<^verbatim>\<open>anonymize_deletes\<close>, installed as \<^verbatim>\<open>before_annotation_update\<close>: it acts only on
  an annotation flagged as deleted, and stores the empty string as the user where
  views.py removes the key.
\<close>

definition anonymize_deletes :: "dict \<Rightarrow> py_error option \<times> dict" where
  "anonymize_deletes annotation =
     (if truthy (dict_get_default annotation ''deleted'' (JBool False))
      then
        (let usr = dict_get_default annotation ''user'' (JStr []);
             annotation1 =
               (if truthy usr then dict_setitem ''user'' (JStr []) annotation
                else annotation)
         in remove_user_from_permissions usr annotation1)
      else (None, annotation))"



section \<open>Request parameters\<close>

text \<open>
  The request parameters are a webob \<^verbatim>\<open>MultiDict\<close> (the copy of a
  \<^verbatim>\<open>NestedMultiDict\<close>): a list of items in which a key may occur several times, with
  strings as values. \<^verbatim>\<open>pop(key)\<close> removes and returns the first item with the key and
  raises \<open>KeyError\<close> when there is none; \<^verbatim>\<open>del d[key]\<close> removes every item with the
  key; \<^verbatim>\<open>getall(key)\<close> lists the values under the key; \<^verbatim>\<open>items()\<close> is the list itself.
\<close>

type_synonym multidict = "(string \<times> string) list"

fun multidict_pop :: "string \<Rightarrow> multidict \<Rightarrow> (string \<times> multidict) option" where
  "multidict_pop key [] = None"
| "multidict_pop key ((k, v) # items) =
     (if k = key then Some (v, items)
      else (case multidict_pop key items of
              None \<Rightarrow> None
            | Some (x, items1) \<Rightarrow> Some (x, (k, v) # items1)))"

definition multidict_pop_default :: "string \<Rightarrow> string \<Rightarrow> multidict \<Rightarrow> string \<times> multidict" where
  "multidict_pop_default key dflt items =
     (case multidict_pop key items of None \<Rightarrow> (dflt, items) | Some r \<Rightarrow> r)"

definition multidict_contains :: "string \<Rightarrow> multidict \<Rightarrow> bool" where
  "multidict_contains key items = list_ex (\<lambda>kv. fst kv = key) items"

definition multidict_getall :: "string \<Rightarrow> multidict \<Rightarrow> string list" where
  "multidict_getall key items = map snd (filter (\<lambda>kv. fst kv = key) items)"

definition multidict_delitem :: "string \<Rightarrow> multidict \<Rightarrow> multidict" where
  "multidict_delitem key items = filter (\<lambda>kv. fst kv \<noteq> key) items"

text \<open>
  Python's \<^verbatim>\<open>int(s)\<close> on a string: a decimal number, possibly signed, possibly
  surrounded by whitespace (the code base is Python 2, whose \<^verbatim>\<open>int\<close> also skips
  whitespace between the sign and the digits); \<open>None\<close> stands for the \<open>ValueError\<close>
  it raises on anything else. Python's integers are unbounded.
\<close>

definition is_space :: "char \<Rightarrow> bool" where
  "is_space c = (c \<in> set [CHR '' '', CHR 0x09, CHR 0x0A, CHR 0x0B, CHR 0x0C, CHR 0x0D])"

definition digit_value :: "char \<Rightarrow> int option" where
  "digit_value c =
     (if c \<in> set ''0123456789'' then Some (int (of_char c) - 48) else None)"

fun digits :: "int \<Rightarrow> string \<Rightarrow> int option" where
  "digits acc [] = Some acc"
| "digits acc (c # cs) =
     (case digit_value c of None \<Rightarrow> None | Some d \<Rightarrow> digits (10 * acc + d) cs)"

definition strip :: "string \<Rightarrow> string" where
  "strip s = rev (dropWhile is_space (rev (dropWhile is_space s)))"

definition py_int :: "string \<Rightarrow> int option" where
  "py_int s =
     (case strip s of
        [] \<Rightarrow> None
      | c # cs \<Rightarrow>
          if c = CHR ''-'' \<or> c = CHR ''+''
          then (case dropWhile is_space cs of
                  [] \<Rightarrow> None
                | d # ds \<Rightarrow>
                    map_option (\<lambda>n. if c = CHR ''-'' then - n else n) (digits 0 (d # ds)))
          else digits 0 (c # cs))"


section \<open>The search queries (src/h/api/search.py)\<close>

text \<open>
  \<open>nipsa_filter\<close> works on a deep copy of the query and returns it, so the caller's
  query is not changed. \<^verbatim>\<open>query["query"]\<close> raises \<open>KeyError\<close> when the query has no
  such key. \<open>user_id\<close> is a string or \<open>None\<close>; \<^verbatim>\<open>if user_id:\<close> holds for a string that
  is not empty.
\<close>

definition nipsa_filter :: "dict \<Rightarrow> string option \<Rightarrow> py_error + dict" where
  "nipsa_filter query user_id =
     (let should_clauses =
            [JObj [(''not'', JObj [(''term'', JObj [(''not_in_public_site_areas'', JBool True)])])]];
          should_clauses =
            (case user_id of
               None \<Rightarrow> should_clauses
             | Some u \<Rightarrow>
                 if u \<noteq> []
                 then should_clauses @ [JObj [(''term'', JObj [(''user'', JStr u)])]]
                 else should_clauses)
      in case map_of query ''query'' of
           None \<Rightarrow> Inl (KeyError ''query'')
         | Some q \<Rightarrow>
             Inr (dict_setitem ''query''
                    (JObj [(''filtered'',
                       JObj [(''filter'', JObj [(''bool'', JObj [(''should'', JArr should_clauses)])]),
                             (''query'', q)])])
                    query))"

text \<open>The two \<^verbatim>\<open>try\<close> blocks of \<open>build_query\<close>: the key is popped before \<^verbatim>\<open>int\<close> is tried.\<close>

definition pop_non_negative :: "string \<Rightarrow> int \<Rightarrow> multidict \<Rightarrow> int \<times> multidict" where
  "pop_non_negative key dflt request_params =
     (case multidict_pop key request_params of
        None \<Rightarrow> (dflt, request_params)
      | Some (v, request_params1) \<Rightarrow>
          (case py_int v of
             None \<Rightarrow> (dflt, request_params1)
           | Some n \<Rightarrow> (if n < 0 then dflt else n, request_params1)))"

definition build_query :: "multidict \<Rightarrow> string option \<Rightarrow> py_error + dict" where
  "build_query request_params0 user_id =
     (case pop_non_negative ''offset'' 0 request_params0 of (from_, request_params1) \<Rightarrow>
      case pop_non_negative ''limit'' 20 request_params1 of (size_, request_params2) \<Rightarrow>
      case multidict_pop_default ''sort'' ''updated'' request_params2 of (sort_by, request_params3) \<Rightarrow>
      case multidict_pop_default ''order'' ''desc'' request_params3 of (order_by, request_params4) \<Rightarrow>
      let query =
            [(''from'', JNum from_),
             (''size'', JNum size_),
             (''sort'', JArr [JObj [(sort_by,
                 JObj [(''ignore_unmapped'', JBool True), (''order'', JStr order_by)])]])];
          (matches, request_params5) =
            (if multidict_contains ''any'' request_params4
             then ([JObj [(''multi_match'',
                      JObj [(''fields'', JArr [JStr ''quote'', JStr ''tags'', JStr ''text'',
                                              JStr ''uri.parts'', JStr ''user'']),
                            (''query'', JArr (map JStr (multidict_getall ''any'' request_params4))),
                            (''type'', JStr ''cross_fields'')])]],
                   multidict_delitem ''any'' request_params4)
             else ([], request_params4));
          matches =
            matches @ map (\<lambda>(key, v). JObj [(''match'', JObj [(key, JStr v)])]) request_params5;
          matches = (if matches \<noteq> [] then matches else [JObj [(''match_all'', JObj [])]]);
          query = dict_setitem ''query'' (JObj [(''bool'', JObj [(''must'', JArr matches)])]) query
      in nipsa_filter query user_id)"



section \<open>Reading a built query\<close>

text \<open>
  The parts of a filtered query: \<^verbatim>\<open>query["query"]["filtered"][part]\<close> for the parts
  \<^verbatim>\<open>"filter"\<close> and \<^verbatim>\<open>"query"\<close>.
\<close>

definition filtered_part :: "dict \<Rightarrow> string \<Rightarrow> json option" where
  "filtered_part query part =
     (case map_of query ''query'' of
        Some (JObj q) \<Rightarrow>
          (case map_of q ''filtered'' of Some (JObj f) \<Rightarrow> map_of f part | _ \<Rightarrow> None)
      | _ \<Rightarrow> None)"

text \<open>
  Elasticsearch evaluates the query, not this repository. The clauses that
  \<open>nipsa_filter\<close> builds are read as its own comments read them: a \<^verbatim>\<open>term\<close> clause
  holds of a document whose field has the given value, \<^verbatim>\<open>not\<close> negates it, and
  ``if any one of these "should" clauses is true then the annotation will get through
  the filter''.
\<close>

definition term_holds :: "json \<Rightarrow> dict \<Rightarrow> bool" where
  "term_holds clause doc =
     (case clause of
        JObj [(k, JObj [(field, v)])] \<Rightarrow> k = ''term'' \<and> map_of doc field = Some v
      | _ \<Rightarrow> False)"

definition clause_holds :: "json \<Rightarrow> dict \<Rightarrow> bool" where
  "clause_holds clause doc =
     (case clause of
        JObj [(k, c)] \<Rightarrow> if k = ''not'' then \<not> term_holds c doc else term_holds clause doc
      | _ \<Rightarrow> False)"

definition filter_admits :: "json \<Rightarrow> dict \<Rightarrow> bool" where
  "filter_admits flt doc =
     (case flt of
        JObj [(k, JObj [(k', JArr clauses)])] \<Rightarrow>
          k = ''bool'' \<and> k' = ''should'' \<and> list_ex (\<lambda>c. clause_holds c doc) clauses
      | _ \<Rightarrow> False)"

text \<open>
  A \<^verbatim>\<open>bool\<close> query with \<^verbatim>\<open>must\<close> clauses matches the documents that every clause
  matches; \<^verbatim>\<open>match_all\<close> matches every document. How a \<^verbatim>\<open>match\<close> or a
  \<^verbatim>\<open>multi_match\<close> clause scores a document is the engine's business: \<open>full_text\<close>
  stands for it.
\<close>

definition must_matches :: "(json \<Rightarrow> dict \<Rightarrow> bool) \<Rightarrow> json \<Rightarrow> dict \<Rightarrow> bool" where
  "must_matches full_text q doc =
     (case q of
        JObj [(k, JObj [(k', JArr clauses)])] \<Rightarrow>
          k = ''bool'' \<and> k' = ''must'' \<and>
          list_all (\<lambda>c. c = JObj [(''match_all'', JObj [])] \<or> full_text c doc) clauses
      | _ \<Rightarrow> False)"


section \<open>Anonymization in the specification's words\<close>

text \<open>
  ``For every action key in permissions, remove the captured author identity from that
  action's identity list while preserving all other identities and other actions
  untouched'': every identity list loses the entries equal to the author, in place.
\<close>

definition filtered :: "json \<Rightarrow> json \<Rightarrow> json" where
  "filtered usr roles =
     (case roles of JArr rs \<Rightarrow> JArr (filter (\<lambda>role. \<not> py_eq role usr) rs) | _ \<Rightarrow> roles)"

definition remove_identity :: "json \<Rightarrow> dict \<Rightarrow> dict" where
  "remove_identity usr permissions =
     map (\<lambda>kv. (fst kv, filtered usr (snd kv))) permissions"

definition permissions_without :: "json \<Rightarrow> dict \<Rightarrow> json option" where
  "permissions_without usr annotation =
     (case map_of annotation ''permissions'' of
        Some (JObj permissions) \<Rightarrow> Some (JObj (remove_identity usr permissions))
      | other \<Rightarrow> other)"

text \<open>
  The data model's permissions: ``a mapping from action name to a set of identities''.
  An annotation is well formed when it has no permissions, or when its permissions
  are a dictionary (no action twice) whose values are lists.
\<close>

definition is_list :: "json \<Rightarrow> bool" where
  "is_list v = (case v of JArr rs \<Rightarrow> True | _ \<Rightarrow> False)"

definition permission_lists :: "dict \<Rightarrow> bool" where
  "permission_lists annotation =
     (case map_of annotation ''permissions'' of
        None \<Rightarrow> True
      | Some (JObj permissions) \<Rightarrow>
          distinct (map fst permissions) \<and> list_all (\<lambda>kv. is_list (snd kv)) permissions
      | Some _ \<Rightarrow> False)"

text \<open>No identity list of the annotation holds the empty string.\<close>

definition no_empty_identity :: "dict \<Rightarrow> bool" where
  "no_empty_identity annotation =
     (case map_of annotation ''permissions'' of
        Some (JObj permissions) \<Rightarrow>
          list_all (\<lambda>kv. case snd kv of JArr rs \<Rightarrow> JStr [] \<notin> set rs | _ \<Rightarrow> True)
            permissions
      | _ \<Rightarrow> True)"

text \<open>Applying a hook again to the annotation that its first application left.\<close>

definition twice :: "(dict \<Rightarrow> py_error option \<times> dict) \<Rightarrow> dict \<Rightarrow> py_error option \<times> dict" where
  "twice f annotation =
     (case f annotation of
        (None, annotation1) \<Rightarrow> f annotation1
      | (Some err, annotation1) \<Rightarrow> (Some err, annotation1))"


section \<open>Dictionaries: lookups after the operations\<close>

lemma map_of_dict_pop: "map_of (dict_pop k d) k' = (if k' = k then None else map_of d k')"
  by (induction d) auto

lemma map_of_dict_setitem:
  "map_of (dict_setitem k v d) k' = (if k' = k then Some v else map_of d k')"
  by (induction d) auto

lemma map_of_pop_fields:
  "map_of (pop_fields ks d) k = (if k \<in> set ks then None else map_of d k)"
  by (induction ks arbitrary: d) (auto simp: map_of_dict_pop)

lemma nipsa_iff: "nipsa tbl u \<longleftrightarrow> u \<in> set tbl"
  by (auto simp: nipsa_def user_read_def get_by_id_def find_None_iff)


lemma dict_pop_filter: "dict_pop k d = filter (\<lambda>kv. fst kv \<noteq> k) d"
  by (induction d) auto

lemma pop_fields_filter: "pop_fields ks d = filter (\<lambda>kv. fst kv \<notin> set ks) d"
  by (induction ks arbitrary: d) (auto simp: dict_pop_filter intro: filter_cong)

lemma pop_fields_dict_setitem:
  "k \<in> set ks \<Longrightarrow> pop_fields ks (dict_setitem k v d) = pop_fields ks d"
  by (induction d) (auto simp: pop_fields_filter)

lemma pop_fields_keys: "k \<in> set ks \<Longrightarrow> k \<notin> fst ` set (pop_fields ks d)"
  by (auto simp: pop_fields_filter)

lemma map_of_dict_update_other:
  "k \<notin> fst ` set other \<Longrightarrow> map_of (dict_update d other) k = map_of d k"
  by (induction other arbitrary: d) (auto simp: map_of_dict_setitem)

lemma remove_user_from_permissions_other:
  "k \<noteq> ''permissions'' \<Longrightarrow>
   map_of (snd (remove_user_from_permissions usr annotation)) k = map_of annotation k"
  by (auto simp: remove_user_from_permissions_def map_of_dict_setitem
      split: option.splits json.splits prod.splits)

lemma views_anonymize_deletes_user:
  "map_of (snd (views_anonymize_deletes annotation)) ''user'' = None"
  by (auto simp: views_anonymize_deletes_def remove_user_from_permissions_other map_of_dict_pop
      split: option.splits)

lemma views_anonymize_deletes_other:
  "k \<noteq> ''permissions'' \<Longrightarrow> k \<noteq> ''user'' \<Longrightarrow>
   map_of (snd (views_anonymize_deletes annotation)) k = map_of annotation k"
  by (auto simp: views_anonymize_deletes_def remove_user_from_permissions_other map_of_dict_pop
      split: option.splits)

lemma update_annotation_protected:
  assumes "k \<in> set PROTECTED_FIELDS"
  shows "map_of (fst (snd (update_annotation annotation fields0 adm w))) k = map_of annotation k \<or>
         (k = ''user'' \<and> map_of (fst (snd (update_annotation annotation fields0 adm w))) k = None)"
proof -
  let ?fields1 = "pop_fields PROTECTED_FIELDS fields0"
  let ?merged = "dict_update annotation ?fields1"
  have merged: "map_of ?merged k = map_of annotation k"
    using assms by (simp add: map_of_dict_update_other pop_fields_keys)
  have perm: "k \<noteq> ''permissions''"
    using assms by (auto simp: PROTECTED_FIELDS_def)
  have anon: "map_of (snd (views_anonymize_deletes ?merged)) k = map_of annotation k \<or>
      (k = ''user'' \<and> map_of (snd (views_anonymize_deletes ?merged)) k = None)"
    using merged perm views_anonymize_deletes_user [of ?merged]
      views_anonymize_deletes_other [of k ?merged] by (cases "k = ''user''") auto
  show ?thesis
    using merged anon
    by (auto simp: update_annotation_def Let_def split: prod.splits option.splits)
qed

lemma permissions_not_protected: "''permissions'' \<notin> set PROTECTED_FIELDS"
  by (simp add: PROTECTED_FIELDS_def)


section \<open>Creating an annotation\<close>

text \<open>
  C1 (as amended). The annotation that \<open>create_annotation\<close> hands to the store carries
  \<^verbatim>\<open>not_in_public_site_areas = True\<close> whenever the author is on the suppression list,
  whatever the payload holds. For an author who is not on the list the field is not
  touched: the stored value is the payload's own value, and absent when the payload
  has none.
\<close>

theorem create_annotation_nipsa_flag:
  "saved (snd (snd (create_annotation fields0 usr w))) =
     fst (snd (create_annotation fields0 usr w)) # saved w \<and>
   dict_get (fst (snd (create_annotation fields0 usr w))) ''not_in_public_site_areas'' =
     (if id' usr \<in> set (nipsa_table w) then Some (JBool True)
      else dict_get fields0 ''not_in_public_site_areas'')"
  by (simp add: create_annotation_def Let_def save_def dict_get_def map_of_dict_setitem
      map_of_dict_pop PROTECTED_FIELDS_def nipsa_iff)

text \<open>
  C1 as stated fails: an author who is not on the list sends
  \<^verbatim>\<open>{"not_in_public_site_areas": true}\<close> and the stored annotation has the flag.
\<close>

theorem create_annotation_client_flag_counterexample:
  "dict_get (fst (snd (create_annotation [(''not_in_public_site_areas'', JBool True)]
       \<lparr>id' = ''alice'', consumer_key = ''key''\<rparr>
       \<lparr>nipsa_table = [], saved = [], notified = [], status_code = 200\<rparr>)))
     ''not_in_public_site_areas'' = Some (JBool True) \<and>
   \<not> nipsa [] ''alice''"
  by (simp add: create_annotation_def Let_def save_def dict_get_def PROTECTED_FIELDS_def
      nipsa_def user_read_def get_by_id_def)



section \<open>Updating an annotation\<close>

text \<open>
  C2. An update whose payload has a \<^verbatim>\<open>permissions\<close> value that differs from the
  annotation's (from \<^verbatim>\<open>{}\<close> when the annotation has none, as the comparison
  \<^verbatim>\<open>fields['permissions'] != annotation.get('permissions', {})\<close> reads it), sent
  by a caller without the admin permission, is rejected: \<open>update_annotation\<close> raises
  the \<open>RuntimeError\<close> with code 401 and the view answers with the failure message
  and status 401. The annotation is the one before the call, nothing is saved and no
  event is published: the world differs in the status code only.
\<close>

theorem update_rejects_permission_change:
  assumes "map_of fields0 ''permissions'' = Some p"
    and "\<not> py_eq p (dict_get_default annotation ''permissions'' (JObj []))"
    and "\<not> has_admin_permission"
  shows "update_annotation annotation fields0 has_admin_permission w =
           (Some (RuntimeError ''Not authorized to change annotation permissions.'' 401),
            annotation, pop_fields PROTECTED_FIELDS fields0, w) \<and>
         update annotation (Some fields0) has_admin_permission w =
           (Returned [(''status'', JStr ''failure''),
                      (''reason'', JStr ''Not authorized to change annotation permissions.'')],
            annotation, w\<lparr>status_code := 401\<rparr>)"
proof -
  have "map_of (pop_fields PROTECTED_FIELDS fields0) ''permissions'' = Some p"
    using assms(1) by (simp add: map_of_pop_fields permissions_not_protected)
  then have raised: "update_annotation annotation fields0 has_admin_permission w =
      (Some (RuntimeError ''Not authorized to change annotation permissions.'' 401),
       annotation, pop_fields PROTECTED_FIELDS fields0, w)"
    using assms(2,3) by (simp add: update_annotation_def Let_def)
  then show ?thesis
    by (simp add: update_def api_error_def)
qed

theorem update_rejects_permission_change_witness:
  "update [(''user'', JStr ''bob''), (''text'', JStr ''old''),
           (''permissions'', JObj [(''read'', JArr [JStr ''bob''])])]
     (Some [(''text'', JStr ''new''),
            (''permissions'', JObj [(''read'', JArr [JStr ''bob'', JStr ''mallory''])])])
     False \<lparr>nipsa_table = [], saved = [], notified = [], status_code = 200\<rparr> =
   (Returned [(''status'', JStr ''failure''),
              (''reason'', JStr ''Not authorized to change annotation permissions.'')],
    [(''user'', JStr ''bob''), (''text'', JStr ''old''),
     (''permissions'', JObj [(''read'', JArr [JStr ''bob''])])],
    \<lparr>nipsa_table = [], saved = [], notified = [], status_code = 401\<rparr>)"
  using update_rejects_permission_change
    [of "[(''text'', JStr ''new''),
          (''permissions'', JObj [(''read'', JArr [JStr ''bob'', JStr ''mallory''])])]"
        "JObj [(''read'', JArr [JStr ''bob'', JStr ''mallory''])]"
        "[(''user'', JStr ''bob''), (''text'', JStr ''old''),
          (''permissions'', JObj [(''read'', JArr [JStr ''bob''])])]"
        False
        "\<lparr>nipsa_table = [], saved = [], notified = [], status_code = 200\<rparr>"]
  by (simp add: dict_get_default_def)



section \<open>Protected fields\<close>

text \<open>
  C5. Whatever value a create or update payload holds under a protected key
  (\<^verbatim>\<open>created\<close>, \<^verbatim>\<open>updated\<close>, \<^verbatim>\<open>user\<close>, \<^verbatim>\<open>consumer\<close>, \<^verbatim>\<open>id\<close>), the call does
  what it does without it: the value is discarded. On create, the annotation handed
  to the store has the author's id as \<^verbatim>\<open>user\<close> and the author's consumer key as
  \<^verbatim>\<open>consumer\<close>, and no \<^verbatim>\<open>id\<close>, \<^verbatim>\<open>created\<close> or \<^verbatim>\<open>updated\<close> of the client's. On
  update, the annotation keeps the value it had under the key (the anonymization of a
  deleted annotation removes its \<^verbatim>\<open>user\<close>).
\<close>

theorem protected_fields_discarded:
  assumes "k \<in> set PROTECTED_FIELDS"
  shows "create_annotation (dict_setitem k v fields0) usr w = create_annotation fields0 usr w \<and>
         update_annotation annotation (dict_setitem k v fields0) adm w =
           update_annotation annotation fields0 adm w \<and>
         map_of (fst (snd (create_annotation fields0 usr w))) k =
           (if k = ''user'' then Some (JStr (id' usr))
            else if k = ''consumer'' then Some (JStr (consumer_key usr)) else None) \<and>
         (map_of (fst (snd (update_annotation annotation fields0 adm w))) k = map_of annotation k \<or>
          k = ''user'' \<and> map_of (fst (snd (update_annotation annotation fields0 adm w))) k = None)"
proof -
  have strip: "pop_fields PROTECTED_FIELDS (dict_setitem k v fields0) =
      pop_fields PROTECTED_FIELDS fields0"
    using assms by (rule pop_fields_dict_setitem)
  have c: "create_annotation (dict_setitem k v fields0) usr w = create_annotation fields0 usr w"
    by (simp add: create_annotation_def strip)
  have u: "update_annotation annotation (dict_setitem k v fields0) adm w =
      update_annotation annotation fields0 adm w"
    by (simp add: update_annotation_def strip)
  have nk: "k \<noteq> ''not_in_public_site_areas''"
    using assms by (auto simp: PROTECTED_FIELDS_def)
  have "map_of (pop_fields PROTECTED_FIELDS fields0) k = None"
    using assms by (simp add: map_of_pop_fields)
  then have s: "map_of (fst (snd (create_annotation fields0 usr w))) k =
      (if k = ''user'' then Some (JStr (id' usr))
       else if k = ''consumer'' then Some (JStr (consumer_key usr)) else None)"
    using nk by (simp add: create_annotation_def Let_def map_of_dict_setitem)
  show ?thesis
    using c u s update_annotation_protected [OF assms] by blast
qed

theorem protected_fields_discarded_witness:
  "fst (snd (create_annotation [(''text'', JStr ''hi''), (''user'', JStr ''evil''), (''id'', JStr ''123'')]
       \<lparr>id' = ''alice'', consumer_key = ''key''\<rparr>
       \<lparr>nipsa_table = [], saved = [], notified = [], status_code = 200\<rparr>)) =
     [(''text'', JStr ''hi''), (''user'', JStr ''alice''), (''consumer'', JStr ''key'')] \<and>
   create_annotation [(''text'', JStr ''hi''), (''user'', JStr ''evil''), (''id'', JStr ''123'')]
       \<lparr>id' = ''alice'', consumer_key = ''key''\<rparr>
       \<lparr>nipsa_table = [], saved = [], notified = [], status_code = 200\<rparr> =
   create_annotation [(''text'', JStr ''hi''), (''user'', JStr ''mallory''), (''id'', JStr ''123'')]
       \<lparr>id' = ''alice'', consumer_key = ''key''\<rparr>
       \<lparr>nipsa_table = [], saved = [], notified = [], status_code = 200\<rparr>"
  using protected_fields_discarded
    [of "''user''" "JStr ''mallory''"
        "[(''text'', JStr ''hi''), (''user'', JStr ''evil''), (''id'', JStr ''123'')]"
        "\<lparr>id' = ''alice'', consumer_key = ''key''\<rparr>"
        "\<lparr>nipsa_table = [], saved = [], notified = [], status_code = 200\<rparr>"]
  by (simp add: PROTECTED_FIELDS_def create_annotation_def Let_def nipsa_def user_read_def
      get_by_id_def)

lemma map_of_shared_permissions:
  "k \<noteq> ''permissions'' \<Longrightarrow> map_of (shared_permissions fields1 annotation) k = map_of fields1 k"
  by (simp add: shared_permissions_def map_of_dict_setitem split: option.splits)

text \<open>
  C9. Create and update pop the protected keys from the caller's own \<open>fields\<close>
  mapping: after either call, on every path of it, the mapping has none of them, and
  the record is built or merged from the mapping so stripped.
\<close>

theorem protected_fields_popped_in_place:
  assumes "k \<in> set PROTECTED_FIELDS"
  shows "fst (create_annotation fields0 usr w) = pop_fields PROTECTED_FIELDS fields0 \<and>
         map_of (fst (create_annotation fields0 usr w)) k = None \<and>
         map_of (fst (snd (snd (update_annotation annotation fields0 adm w)))) k = None \<and>
         create_annotation (pop_fields PROTECTED_FIELDS fields0) usr w =
           create_annotation fields0 usr w \<and>
         update_annotation annotation (pop_fields PROTECTED_FIELDS fields0) adm w =
           update_annotation annotation fields0 adm w"
proof -
  have perm: "k \<noteq> ''permissions''"
    using assms by (auto simp: PROTECTED_FIELDS_def)
  have none: "map_of (pop_fields PROTECTED_FIELDS fields0) k = None"
    using assms by (simp add: map_of_pop_fields)
  have idem: "pop_fields PROTECTED_FIELDS (pop_fields PROTECTED_FIELDS fields0) =
      pop_fields PROTECTED_FIELDS fields0"
    by (simp add: pop_fields_filter)
  have c: "fst (create_annotation fields0 usr w) = pop_fields PROTECTED_FIELDS fields0"
    by (simp add: create_annotation_def Let_def)
  have u: "map_of (fst (snd (snd (update_annotation annotation fields0 adm w)))) k = None"
    using none perm
    by (auto simp: update_annotation_def Let_def map_of_shared_permissions
        split: prod.splits option.splits)
  show ?thesis
    using c u none by (simp add: create_annotation_def update_annotation_def idem)
qed

theorem protected_fields_popped_in_place_witness:
  "fst (create_annotation [(''text'', JStr ''hi''), (''user'', JStr ''evil''), (''id'', JStr ''123'')]
       \<lparr>id' = ''alice'', consumer_key = ''key''\<rparr>
       \<lparr>nipsa_table = [], saved = [], notified = [], status_code = 200\<rparr>) =
     [(''text'', JStr ''hi'')] \<and>
   fst (snd (snd (update_annotation [(''user'', JStr ''bob''), (''text'', JStr ''old'')]
       [(''text'', JStr ''hi''), (''user'', JStr ''evil''), (''id'', JStr ''123'')] False
       \<lparr>nipsa_table = [], saved = [], notified = [], status_code = 200\<rparr>))) =
     [(''text'', JStr ''hi'')]"
  using protected_fields_popped_in_place
    [of "''user''"
        "[(''text'', JStr ''hi''), (''user'', JStr ''evil''), (''id'', JStr ''123'')]"
        "\<lparr>id' = ''alice'', consumer_key = ''key''\<rparr>"
        "\<lparr>nipsa_table = [], saved = [], notified = [], status_code = 200\<rparr>"
        "[(''user'', JStr ''bob''), (''text'', JStr ''old'')]" False]
  by (simp add: PROTECTED_FIELDS_def update_annotation_def Let_def dict_get_default_def)



section \<open>Updating a deleted annotation that has no user\<close>

text \<open>
  C10. When an update passes the permission check and the merged annotation is flagged
  as deleted but has no \<^verbatim>\<open>user\<close> key, \<^verbatim>\<open>annotation.pop('user')\<close> raises
  \<open>KeyError\<close>. The view catches \<open>RuntimeError\<close> only, so the exception leaves the
  view: there is no error response, the status code is untouched, nothing is saved and
  no event is published. The annotation object is left merged.
\<close>

theorem update_keyerror_uncaught:
  assumes "has_admin_permission \<or>
           (case map_of fields0 ''permissions'' of
              None \<Rightarrow> True
            | Some p \<Rightarrow> py_eq p (dict_get_default annotation ''permissions'' (JObj [])))"
    and "merged = dict_update annotation (pop_fields PROTECTED_FIELDS fields0)"
    and "truthy (dict_get_default merged ''deleted'' (JBool False))"
    and "map_of merged ''user'' = None"
  shows "views_anonymize_deletes merged = (Some (KeyError ''user''), merged) \<and>
         update annotation (Some fields0) has_admin_permission w =
           (Raised (KeyError ''user''), merged, w)"
proof -
  have anon: "views_anonymize_deletes merged = (Some (KeyError ''user''), merged)"
    using assms(4) by (simp add: views_anonymize_deletes_def)
  have perm: "map_of (pop_fields PROTECTED_FIELDS fields0) ''permissions'' =
      map_of fields0 ''permissions''"
    by (simp add: map_of_pop_fields permissions_not_protected)
  have "fst (update_annotation annotation fields0 has_admin_permission w) = Some (KeyError ''user'') \<and>
        fst (snd (update_annotation annotation fields0 has_admin_permission w)) = merged \<and>
        snd (snd (snd (update_annotation annotation fields0 has_admin_permission w))) = w"
    using assms(1,3) anon perm
    by (auto simp: update_annotation_def Let_def assms(2) [symmetric] split: option.splits)
  then show ?thesis
    using anon by (auto simp: update_def split: prod.splits option.splits py_error.splits)
qed

theorem update_keyerror_uncaught_witness:
  "update [(''deleted'', JBool True), (''text'', JStr ''old'')] (Some [(''text'', JStr ''new'')]) False
     \<lparr>nipsa_table = [], saved = [], notified = [], status_code = 200\<rparr> =
   (Raised (KeyError ''user''), [(''deleted'', JBool True), (''text'', JStr ''new'')],
    \<lparr>nipsa_table = [], saved = [], notified = [], status_code = 200\<rparr>)"
  using update_keyerror_uncaught
    [where has_admin_permission = False
       and ?fields0.0 = "[(''text'', JStr ''new'')]"
       and annotation = "[(''deleted'', JBool True), (''text'', JStr ''old'')]"
       and merged = "[(''deleted'', JBool True), (''text'', JStr ''new'')]"
       and w = "\<lparr>nipsa_table = [], saved = [], notified = [], status_code = 200\<rparr>"]
  by (simp add: PROTECTED_FIELDS_def dict_get_default_def)



section \<open>The anonymization loop\<close>

text \<open>
  On well-formed permissions the loop raises nothing and computes the map of the
  specification: every identity list is filtered, each action keeps its place.
\<close>

lemma py_eq_JStr_iff: "py_eq role (JStr s) \<longleftrightarrow> role = JStr s"
  by (cases role) auto

lemma is_list_filtered: "is_list (filtered usr v) = is_list v"
  by (cases v) (simp_all add: is_list_def filtered_def)

lemma filtered_idem: "filtered usr (filtered usr v) = filtered usr v"
  by (cases v) (simp_all add: filtered_def)

lemma dict_setitem_map:
  "distinct (map fst d) \<Longrightarrow> map_of d a = Some v \<Longrightarrow>
   dict_setitem a (f v) d = map (\<lambda>kv. if fst kv = a then (fst kv, f (snd kv)) else kv) d"
proof (induction d)
  case Nil
  then show ?case by simp
next
  case (Cons x d)
  obtain k w where x: "x = (k, w)" by (cases x)
  show ?case
  proof (cases "k = a")
    case True
    with Cons.prems x have "a \<notin> fst ` set d" and "w = v" by auto
    then have "map (\<lambda>kv. if fst kv = a then (fst kv, f (snd kv)) else kv) d = d"
      by (intro map_idI) auto
    with True x \<open>w = v\<close> show ?thesis by simp
  next
    case False
    with Cons x show ?thesis by simp
  qed
qed

lemma dict_setitem_same: "map_of d k = Some v \<Longrightarrow> dict_setitem k v d = d"
  by (induction d) (auto split: if_splits)

lemma remove_user_general:
  "distinct (map fst perms) \<Longrightarrow> list_all (\<lambda>kv. is_list (snd kv)) perms \<Longrightarrow>
   set acts \<subseteq> fst ` set perms \<Longrightarrow>
   remove_user usr acts perms =
     (None, map (\<lambda>kv. if fst kv \<in> set acts then (fst kv, filtered usr (snd kv)) else kv) perms)"
proof (induction acts arbitrary: perms)
  case Nil
  then show ?case by simp
next
  case (Cons a acts)
  from Cons.prems(3) obtain v where v: "map_of perms a = Some v"
    by (cases "map_of perms a") (auto simp: map_of_eq_None_iff)
  then have "(a, v) \<in> set perms" by (rule map_of_SomeD)
  with Cons.prems(2) have "is_list v" by (auto simp: list_all_iff)
  then obtain rs where rs: "v = JArr rs" by (cases v) (auto simp: is_list_def)
  let ?step = "\<lambda>kv. if fst kv = a then (fst kv, filtered usr (snd kv)) else kv"
  let ?perms1 = "map ?step perms"
  have set1: "dict_setitem a (JArr (filter (\<lambda>role. \<not> py_eq role usr) rs)) perms = ?perms1"
    using dict_setitem_map [OF Cons.prems(1) v, of "filtered usr"] rs
    by (simp add: filtered_def)
  have keys1: "map fst ?perms1 = map fst perms"
    by (induction perms) auto
  have lists1: "list_all (\<lambda>kv. is_list (snd kv)) ?perms1"
    using Cons.prems(2) by (auto simp: list_all_iff is_list_filtered)
  have "remove_user usr acts ?perms1 =
      (None, map (\<lambda>kv. if fst kv \<in> set acts then (fst kv, filtered usr (snd kv)) else kv) ?perms1)"
  proof (rule Cons.IH)
    show "distinct (map fst ?perms1)" unfolding keys1 by (rule Cons.prems(1))
    show "list_all (\<lambda>kv. is_list (snd kv)) ?perms1" by (rule lists1)
    have "fst ` set ?perms1 = fst ` set perms"
      using keys1 by (metis list.set_map)
    then show "set acts \<subseteq> fst ` set ?perms1" using Cons.prems(3) by simp
  qed
  moreover have "map (\<lambda>kv. if fst kv \<in> set acts then (fst kv, filtered usr (snd kv)) else kv) ?perms1 =
      map (\<lambda>kv. if fst kv \<in> set (a # acts) then (fst kv, filtered usr (snd kv)) else kv) perms"
    by (auto simp: filtered_idem)
  ultimately show ?case
    using v rs set1 by simp
qed

lemma remove_user_keys:
  "distinct (map fst perms) \<Longrightarrow> list_all (\<lambda>kv. is_list (snd kv)) perms \<Longrightarrow>
   remove_user usr (map fst perms) perms = (None, remove_identity usr perms)"
  by (simp add: remove_user_general remove_identity_def)

lemma remove_user_from_permissions_lists:
  assumes "permission_lists annotation"
  shows "fst (remove_user_from_permissions usr annotation) = None \<and>
         map_of (snd (remove_user_from_permissions usr annotation)) ''permissions'' =
           permissions_without usr annotation"
  using assms
  by (auto simp: permission_lists_def remove_user_from_permissions_def permissions_without_def
      remove_user_keys map_of_dict_setitem split: option.splits json.splits)



section \<open>Anonymization\<close>

text \<open>
  C3 (as amended). On an annotation with well-formed permissions:
  \<^item> \<^verbatim>\<open>_anonymize_deletes\<close> of views.py, given an annotation that has a \<^verbatim>\<open>user\<close>,
    raises nothing, removes the \<^verbatim>\<open>user\<close> key, takes the entries equal to that user out
    of every identity list of the permissions (the other identities and the actions
    stay as they are), and leaves every other field alone;
  \<^item> \<^verbatim>\<open>anonymize_deletes\<close> of store.py, given an annotation flagged as deleted, does
    the same to the permissions with the user it reads (the empty string when there is
    none) and stores the empty string as \<^verbatim>\<open>user\<close> when that user is truthy; an
    annotation that is not flagged as deleted is left as it is.
\<close>

theorem anonymize_removes_author:
  assumes "permission_lists annotation"
  shows "(map_of annotation ''user'' = Some usr \<longrightarrow>
            fst (views_anonymize_deletes annotation) = None \<and>
            map_of (snd (views_anonymize_deletes annotation)) ''user'' = None \<and>
            map_of (snd (views_anonymize_deletes annotation)) ''permissions'' =
              permissions_without usr annotation \<and>
            (\<forall>k. k \<noteq> ''user'' \<and> k \<noteq> ''permissions'' \<longrightarrow>
               map_of (snd (views_anonymize_deletes annotation)) k = map_of annotation k)) \<and>
         (truthy (dict_get_default annotation ''deleted'' (JBool False)) \<and>
          usr = dict_get_default annotation ''user'' (JStr []) \<longrightarrow>
            fst (anonymize_deletes annotation) = None \<and>
            map_of (snd (anonymize_deletes annotation)) ''user'' =
              (if truthy usr then Some (JStr []) else map_of annotation ''user'') \<and>
            map_of (snd (anonymize_deletes annotation)) ''permissions'' =
              permissions_without usr annotation \<and>
            (\<forall>k. k \<noteq> ''user'' \<and> k \<noteq> ''permissions'' \<longrightarrow>
               map_of (snd (anonymize_deletes annotation)) k = map_of annotation k)) \<and>
         (\<not> truthy (dict_get_default annotation ''deleted'' (JBool False)) \<longrightarrow>
            anonymize_deletes annotation = (None, annotation))"
proof (intro conjI impI)
  assume u: "map_of annotation ''user'' = Some usr"
  let ?a1 = "dict_pop ''user'' annotation"
  have perm1: "map_of ?a1 ''permissions'' = map_of annotation ''permissions''"
    by (simp add: map_of_dict_pop)
  then have wf1: "permission_lists ?a1"
    using assms by (simp add: permission_lists_def)
  have pw: "permissions_without usr ?a1 = permissions_without usr annotation"
    using perm1 by (simp add: permissions_without_def)
  have v: "views_anonymize_deletes annotation = remove_user_from_permissions usr ?a1"
    using u by (simp add: views_anonymize_deletes_def)
  show "fst (views_anonymize_deletes annotation) = None"
    using remove_user_from_permissions_lists [OF wf1, of usr] v by simp
  show "map_of (snd (views_anonymize_deletes annotation)) ''user'' = None"
    by (rule views_anonymize_deletes_user)
  show "map_of (snd (views_anonymize_deletes annotation)) ''permissions'' =
      permissions_without usr annotation"
    using remove_user_from_permissions_lists [OF wf1, of usr] v pw by simp
  show "\<forall>k. k \<noteq> ''user'' \<and> k \<noteq> ''permissions'' \<longrightarrow>
      map_of (snd (views_anonymize_deletes annotation)) k = map_of annotation k"
    by (simp add: views_anonymize_deletes_other)
next
  assume d: "truthy (dict_get_default annotation ''deleted'' (JBool False)) \<and>
      usr = dict_get_default annotation ''user'' (JStr [])"
  let ?a1 = "if truthy usr then dict_setitem ''user'' (JStr []) annotation else annotation"
  have perm1: "map_of ?a1 ''permissions'' = map_of annotation ''permissions''"
    by (simp add: map_of_dict_setitem)
  then have wf1: "permission_lists ?a1"
    using assms by (simp add: permission_lists_def)
  have pw: "permissions_without usr ?a1 = permissions_without usr annotation"
    using perm1 by (simp add: permissions_without_def)
  have s: "anonymize_deletes annotation = remove_user_from_permissions usr ?a1"
    using d by (simp add: anonymize_deletes_def Let_def)
  show "fst (anonymize_deletes annotation) = None"
    using remove_user_from_permissions_lists [OF wf1, of usr] s by simp
  show "map_of (snd (anonymize_deletes annotation)) ''user'' =
      (if truthy usr then Some (JStr []) else map_of annotation ''user'')"
    unfolding s by (simp add: remove_user_from_permissions_other map_of_dict_setitem)
  show "map_of (snd (anonymize_deletes annotation)) ''permissions'' =
      permissions_without usr annotation"
    using remove_user_from_permissions_lists [OF wf1, of usr] s pw by simp
  show "\<forall>k. k \<noteq> ''user'' \<and> k \<noteq> ''permissions'' \<longrightarrow>
      map_of (snd (anonymize_deletes annotation)) k = map_of annotation k"
    unfolding s by (simp add: remove_user_from_permissions_other map_of_dict_setitem)
next
  assume "\<not> truthy (dict_get_default annotation ''deleted'' (JBool False))"
  then show "anonymize_deletes annotation = (None, annotation)"
    by (simp add: anonymize_deletes_def)
qed

theorem anonymize_removes_author_witness:
  "permission_lists [(''user'', JStr ''bob''),
       (''permissions'', JObj [(''read'', JArr [JStr ''bob'', JStr ''carol''])])] \<and>
   fst (views_anonymize_deletes [(''user'', JStr ''bob''),
       (''permissions'', JObj [(''read'', JArr [JStr ''bob'', JStr ''carol''])])]) = None \<and>
   map_of (snd (views_anonymize_deletes [(''user'', JStr ''bob''),
       (''permissions'', JObj [(''read'', JArr [JStr ''bob'', JStr ''carol''])])])) ''user'' = None \<and>
   map_of (snd (views_anonymize_deletes [(''user'', JStr ''bob''),
       (''permissions'', JObj [(''read'', JArr [JStr ''bob'', JStr ''carol''])])])) ''permissions'' =
     Some (JObj [(''read'', JArr [JStr ''carol''])]) \<and>
   fst (anonymize_deletes [(''deleted'', JBool True), (''user'', JStr ''bob''),
       (''permissions'', JObj [(''read'', JArr [JStr ''bob'', JStr ''carol''])])]) = None \<and>
   map_of (snd (anonymize_deletes [(''deleted'', JBool True), (''user'', JStr ''bob''),
       (''permissions'', JObj [(''read'', JArr [JStr ''bob'', JStr ''carol''])])])) ''user'' =
     Some (JStr []) \<and>
   map_of (snd (anonymize_deletes [(''deleted'', JBool True), (''user'', JStr ''bob''),
       (''permissions'', JObj [(''read'', JArr [JStr ''bob'', JStr ''carol''])])])) ''permissions'' =
     Some (JObj [(''read'', JArr [JStr ''carol''])])"
  using anonymize_removes_author
    [where annotation = "[(''user'', JStr ''bob''),
         (''permissions'', JObj [(''read'', JArr [JStr ''bob'', JStr ''carol''])])]"
       and usr = "JStr ''bob''"]
    anonymize_removes_author
    [where annotation = "[(''deleted'', JBool True), (''user'', JStr ''bob''),
         (''permissions'', JObj [(''read'', JArr [JStr ''bob'', JStr ''carol''])])]"
       and usr = "JStr ''bob''"]
  by (simp add: permission_lists_def is_list_def permissions_without_def remove_identity_def
      filtered_def dict_get_default_def)

text \<open>
  C3 as stated fails on its own example, which has no \<^verbatim>\<open>deleted\<close> flag:
  \<^verbatim>\<open>_anonymize_deletes\<close> of views.py removes the \<^verbatim>\<open>user\<close> key instead of storing the
  empty string, and \<^verbatim>\<open>anonymize_deletes\<close> of store.py leaves the annotation as it is.
\<close>

theorem anonymize_example_counterexample:
  "views_anonymize_deletes [(''user'', JStr ''bob''),
       (''permissions'', JObj [(''read'', JArr [JStr ''bob'', JStr ''carol''])])] =
     (None, [(''permissions'', JObj [(''read'', JArr [JStr ''carol''])])]) \<and>
   snd (views_anonymize_deletes [(''user'', JStr ''bob''),
       (''permissions'', JObj [(''read'', JArr [JStr ''bob'', JStr ''carol''])])]) \<noteq>
     [(''user'', JStr []), (''permissions'', JObj [(''read'', JArr [JStr ''carol''])])] \<and>
   anonymize_deletes [(''user'', JStr ''bob''),
       (''permissions'', JObj [(''read'', JArr [JStr ''bob'', JStr ''carol''])])] =
     (None, [(''user'', JStr ''bob''),
       (''permissions'', JObj [(''read'', JArr [JStr ''bob'', JStr ''carol''])])]) \<and>
   snd (anonymize_deletes [(''user'', JStr ''bob''),
       (''permissions'', JObj [(''read'', JArr [JStr ''bob'', JStr ''carol''])])]) \<noteq>
     [(''user'', JStr []), (''permissions'', JObj [(''read'', JArr [JStr ''carol''])])]"
  by (simp add: views_anonymize_deletes_def anonymize_deletes_def
      remove_user_from_permissions_def dict_get_default_def)



section \<open>Anonymizing twice\<close>

lemma filter_no_empty_identity:
  "JStr [] \<notin> set rs \<Longrightarrow> filter (\<lambda>role. \<not> py_eq role (JStr [])) rs = rs"
  by (auto simp: filter_id_conv py_eq_JStr_iff)

lemma remove_identity_empty:
  "list_all (\<lambda>kv. case snd kv of JArr rs \<Rightarrow> JStr [] \<notin> set rs | _ \<Rightarrow> True) perms \<Longrightarrow>
   remove_identity (JStr []) perms = perms"
  unfolding remove_identity_def
  by (intro map_idI)
    (auto simp: list_all_iff filtered_def filter_no_empty_identity split: json.splits)

lemma remove_identity_idem:
  "remove_identity usr (remove_identity usr perms) = remove_identity usr perms"
  by (simp add: remove_identity_def filtered_idem comp_def)

lemma remove_identity_keys: "map fst (remove_identity usr perms) = map fst perms"
  by (simp add: remove_identity_def comp_def)

lemma remove_identity_lists:
  "list_all (\<lambda>kv. is_list (snd kv)) (remove_identity usr perms) =
   list_all (\<lambda>kv. is_list (snd kv)) perms"
  by (simp add: remove_identity_def list_all_iff is_list_filtered)

lemma remove_identity_no_empty:
  "list_all (\<lambda>kv. case snd kv of JArr rs \<Rightarrow> JStr [] \<notin> set rs | _ \<Rightarrow> True) perms \<Longrightarrow>
   list_all (\<lambda>kv. case snd kv of JArr rs \<Rightarrow> JStr [] \<notin> set rs | _ \<Rightarrow> True)
     (remove_identity usr perms)"
  by (auto simp: remove_identity_def list_all_iff filtered_def split: json.splits)

lemma dict_setitem_twice: "dict_setitem k v (dict_setitem k v' d) = dict_setitem k v d"
  by (induction d) auto

lemma remove_user_from_permissions_result:
  assumes "permission_lists annotation"
  shows "remove_user_from_permissions usr annotation =
     (None, case map_of annotation ''permissions'' of
              Some (JObj perms) \<Rightarrow>
                dict_setitem ''permissions'' (JObj (remove_identity usr perms)) annotation
            | _ \<Rightarrow> annotation)"
  using assms
  by (auto simp: permission_lists_def remove_user_from_permissions_def remove_user_keys
      split: option.splits json.splits)

lemma remove_user_from_permissions_noop:
  assumes "permission_lists annotation" and "no_empty_identity annotation"
  shows "remove_user_from_permissions (JStr []) annotation = (None, annotation)"
  using assms
  by (auto simp: remove_user_from_permissions_result no_empty_identity_def
      remove_identity_empty dict_setitem_same split: option.splits json.splits)

lemma remove_user_from_permissions_again:
  assumes "permission_lists annotation"
    and "remove_user_from_permissions usr annotation = (None, annotation1)"
  shows "remove_user_from_permissions usr annotation1 = (None, annotation1)"
proof (cases "map_of annotation ''permissions''")
  case None
  with assms show ?thesis
    by (simp add: remove_user_from_permissions_def)
next
  case (Some p)
  with assms(1) obtain perms where p: "p = JObj perms"
    and wf: "distinct (map fst perms)" "list_all (\<lambda>kv. is_list (snd kv)) perms"
    by (cases p) (auto simp: permission_lists_def)
  have a1: "annotation1 = dict_setitem ''permissions'' (JObj (remove_identity usr perms)) annotation"
    using assms Some p by (simp add: remove_user_from_permissions_result)
  then have look: "map_of annotation1 ''permissions'' = Some (JObj (remove_identity usr perms))"
    by (simp add: map_of_dict_setitem)
  then have "permission_lists annotation1"
    using wf by (simp add: permission_lists_def remove_identity_keys remove_identity_lists)
  then show ?thesis
    using look a1
    by (simp add: remove_user_from_permissions_result remove_identity_idem dict_setitem_twice)
qed

lemma permissions_kept:
  assumes "permission_lists annotation" and "no_empty_identity annotation"
    and "remove_user_from_permissions usr annotation = (None, annotation1)"
  shows "permission_lists annotation1 \<and> no_empty_identity annotation1"
proof (cases "map_of annotation ''permissions''")
  case None
  with assms show ?thesis
    by (simp add: remove_user_from_permissions_def)
next
  case (Some p)
  with assms(1) obtain perms where p: "p = JObj perms"
    and wf: "distinct (map fst perms)" "list_all (\<lambda>kv. is_list (snd kv)) perms"
    by (cases p) (auto simp: permission_lists_def)
  have a1: "annotation1 = dict_setitem ''permissions'' (JObj (remove_identity usr perms)) annotation"
    using assms Some p by (simp add: remove_user_from_permissions_result)
  then have look: "map_of annotation1 ''permissions'' = Some (JObj (remove_identity usr perms))"
    by (simp add: map_of_dict_setitem)
  show ?thesis
    using look wf assms(2) Some p
    by (simp add: permission_lists_def no_empty_identity_def remove_identity_keys
        remove_identity_lists remove_identity_no_empty)
qed

text \<open>
  C4 (as amended). For \<^verbatim>\<open>anonymize_deletes\<close> of store.py, on an annotation with
  well-formed permissions none of whose identity lists holds the empty string:
  applying it twice gives what applying it once gives, and on an annotation whose
  \<^verbatim>\<open>user\<close> is absent or the empty string it raises nothing and changes nothing.
\<close>

theorem anonymize_deletes_idempotent:
  assumes "permission_lists annotation" and "no_empty_identity annotation"
  shows "twice anonymize_deletes annotation = anonymize_deletes annotation \<and>
         (map_of annotation ''user'' = None \<or> map_of annotation ''user'' = Some (JStr []) \<longrightarrow>
            anonymize_deletes annotation = (None, annotation))"
proof (intro conjI impI)
  assume "map_of annotation ''user'' = None \<or> map_of annotation ''user'' = Some (JStr [])"
  then have "dict_get_default annotation ''user'' (JStr []) = JStr []"
    by (auto simp: dict_get_default_def)
  then show "anonymize_deletes annotation = (None, annotation)"
    using assms by (simp add: anonymize_deletes_def Let_def remove_user_from_permissions_noop)
next
  show "twice anonymize_deletes annotation = anonymize_deletes annotation"
  proof (cases "truthy (dict_get_default annotation ''deleted'' (JBool False))")
    case False
    then show ?thesis by (simp add: twice_def anonymize_deletes_def)
  next
    case True
    define usr where "usr = dict_get_default annotation ''user'' (JStr [])"
    define a1 where "a1 = (if truthy usr then dict_setitem ''user'' (JStr []) annotation else annotation)"
    have once: "anonymize_deletes annotation = remove_user_from_permissions usr a1"
      using True by (simp add: anonymize_deletes_def Let_def usr_def a1_def)
    have perm1: "map_of a1 ''permissions'' = map_of annotation ''permissions''"
      by (simp add: a1_def map_of_dict_setitem)
    have wf1: "permission_lists a1" "no_empty_identity a1"
      using assms perm1 by (simp_all add: permission_lists_def no_empty_identity_def)
    obtain a2 where a2: "remove_user_from_permissions usr a1 = (None, a2)"
      using remove_user_from_permissions_result [OF wf1(1)] by simp
    have wf2: "permission_lists a2" "no_empty_identity a2"
      using permissions_kept [OF wf1 a2] by simp_all
    have other: "\<And>k. k \<noteq> ''permissions'' \<Longrightarrow> map_of a2 k = map_of a1 k"
      using remove_user_from_permissions_other [of _ usr a1] a2 by simp
    have del2: "truthy (dict_get_default a2 ''deleted'' (JBool False))"
      using True other [of "''deleted''"]
      by (simp add: dict_get_default_def a1_def map_of_dict_setitem)
    have "anonymize_deletes a2 = (None, a2)"
    proof (cases "truthy usr")
      case True
      then have "map_of a2 ''user'' = Some (JStr [])"
        using other [of "''user''"] by (simp add: a1_def map_of_dict_setitem)
      then have "dict_get_default a2 ''user'' (JStr []) = JStr []"
        by (simp add: dict_get_default_def)
      then show ?thesis
        using del2 wf2 by (simp add: anonymize_deletes_def Let_def remove_user_from_permissions_noop)
    next
      case False
      then have "a1 = annotation" by (simp add: a1_def)
      then have "dict_get_default a2 ''user'' (JStr []) = usr"
        using other [of "''user''"] by (simp add: dict_get_default_def usr_def)
      then show ?thesis
        using del2 False remove_user_from_permissions_again [OF wf1(1) a2]
        by (simp add: anonymize_deletes_def Let_def)
    qed
    then show ?thesis
      using once a2 by (simp add: twice_def)
  qed
qed

theorem anonymize_deletes_idempotent_witness:
  "permission_lists [(''deleted'', JBool True), (''user'', JStr ''bob''),
       (''permissions'', JObj [(''read'', JArr [JStr ''bob'', JStr ''carol''])])] \<and>
   no_empty_identity [(''deleted'', JBool True), (''user'', JStr ''bob''),
       (''permissions'', JObj [(''read'', JArr [JStr ''bob'', JStr ''carol''])])] \<and>
   twice anonymize_deletes [(''deleted'', JBool True), (''user'', JStr ''bob''),
       (''permissions'', JObj [(''read'', JArr [JStr ''bob'', JStr ''carol''])])] =
     (None, [(''deleted'', JBool True), (''user'', JStr []),
       (''permissions'', JObj [(''read'', JArr [JStr ''carol''])])]) \<and>
   anonymize_deletes [(''deleted'', JBool True), (''user'', JStr []),
       (''permissions'', JObj [(''read'', JArr [JStr ''carol''])])] =
     (None, [(''deleted'', JBool True), (''user'', JStr []),
       (''permissions'', JObj [(''read'', JArr [JStr ''carol''])])])"
  using anonymize_deletes_idempotent
    [where annotation = "[(''deleted'', JBool True), (''user'', JStr ''bob''),
       (''permissions'', JObj [(''read'', JArr [JStr ''bob'', JStr ''carol''])])]"]
    anonymize_deletes_idempotent
    [where annotation = "[(''deleted'', JBool True), (''user'', JStr []),
       (''permissions'', JObj [(''read'', JArr [JStr ''carol''])])]"]
  by (simp add: permission_lists_def no_empty_identity_def is_list_def
      anonymize_deletes_def remove_user_from_permissions_def dict_get_default_def)

text \<open>
  C4 as stated fails: the second application reads the empty string as the user and
  takes the empty identity out of \<^verbatim>\<open>{"read": ["", "bob"]}\<close>, which the first one kept.
\<close>

theorem anonymize_deletes_twice_counterexample:
  "anonymize_deletes [(''deleted'', JBool True), (''user'', JStr ''bob''),
       (''permissions'', JObj [(''read'', JArr [JStr [], JStr ''bob''])])] =
     (None, [(''deleted'', JBool True), (''user'', JStr []),
       (''permissions'', JObj [(''read'', JArr [JStr []])])]) \<and>
   twice anonymize_deletes [(''deleted'', JBool True), (''user'', JStr ''bob''),
       (''permissions'', JObj [(''read'', JArr [JStr [], JStr ''bob''])])] =
     (None, [(''deleted'', JBool True), (''user'', JStr []),
       (''permissions'', JObj [(''read'', JArr [])])]) \<and>
   twice anonymize_deletes [(''deleted'', JBool True), (''user'', JStr ''bob''),
       (''permissions'', JObj [(''read'', JArr [JStr [], JStr ''bob''])])] \<noteq>
   anonymize_deletes [(''deleted'', JBool True), (''user'', JStr ''bob''),
       (''permissions'', JObj [(''read'', JArr [JStr [], JStr ''bob''])])]"
  by (simp add: twice_def anonymize_deletes_def remove_user_from_permissions_def
      dict_get_default_def)



section \<open>The visibility filter\<close>

lemma nipsa_filter_parts:
  assumes "map_of query ''query'' = Some q"
  shows "\<exists>query1. nipsa_filter query user_id = Inr query1 \<and>
      (\<forall>k. k \<noteq> ''query'' \<longrightarrow> map_of query1 k = map_of query k) \<and>
      filtered_part query1 ''query'' = Some q \<and>
      filtered_part query1 ''filter'' =
        Some (JObj [(''bool'', JObj [(''should'', JArr
          (JObj [(''not'', JObj [(''term'', JObj [(''not_in_public_site_areas'', JBool True)])])] #
           (case user_id of
              None \<Rightarrow> []
            | Some u \<Rightarrow> if u \<noteq> [] then [JObj [(''term'', JObj [(''user'', JStr u)])]] else [])))])])"
  using assms
  by (cases user_id)
    (simp_all add: nipsa_filter_def Let_def filtered_part_def map_of_dict_setitem)

lemma should_clauses_admit:
  "filter_admits
     (JObj [(''bool'', JObj [(''should'', JArr
        (JObj [(''not'', JObj [(''term'', JObj [(''not_in_public_site_areas'', JBool True)])])] #
         (case user_id of
            None \<Rightarrow> []
          | Some u \<Rightarrow> if u \<noteq> [] then [JObj [(''term'', JObj [(''user'', JStr u)])]] else [])))])])
     doc \<longleftrightarrow>
   map_of doc ''not_in_public_site_areas'' \<noteq> Some (JBool True) \<or>
   (\<exists>u. user_id = Some u \<and> u \<noteq> [] \<and> map_of doc ''user'' = Some (JStr u))"
  by (cases user_id) (auto simp: filter_admits_def clause_holds_def term_holds_def)

lemma build_query_nipsa_filter:
  "\<exists>query q. build_query request_params user_id = nipsa_filter query user_id \<and>
     map_of query ''query'' = Some q"
  by (auto simp: build_query_def Let_def map_of_dict_setitem split: prod.splits)

text \<open>
  C6. The filter that \<open>nipsa_filter\<close> puts around a query, and so the filter of every
  query that \<open>build_query\<close> returns, admits a document exactly when its
  \<^verbatim>\<open>not_in_public_site_areas\<close> field is not \<open>True\<close>, or the viewer id is a string that
  is not empty and the document's \<^verbatim>\<open>user\<close> is that string. So every document that is
  not suppressed and every document of the viewer is admitted, and a suppressed
  document of another identity is not. With no viewer id, or the empty one, the
  filter has the single clause \<^verbatim>\<open>{"not": {"term": {"not_in_public_site_areas": True}}}\<close>.
  The original query is kept beside the filter.
\<close>

theorem nipsa_filter_admits:
  assumes "map_of query ''query'' = Some q"
  shows "(\<exists>query1 flt. nipsa_filter query user_id = Inr query1 \<and>
            filtered_part query1 ''filter'' = Some flt \<and>
            filtered_part query1 ''query'' = Some q \<and>
            (filter_admits flt doc \<longleftrightarrow>
               map_of doc ''not_in_public_site_areas'' \<noteq> Some (JBool True) \<or>
               (\<exists>u. user_id = Some u \<and> u \<noteq> [] \<and> map_of doc ''user'' = Some (JStr u))) \<and>
            (user_id = None \<or> user_id = Some [] \<longrightarrow>
               flt = JObj [(''bool'', JObj [(''should'', JArr
                 [JObj [(''not'', JObj [(''term'',
                    JObj [(''not_in_public_site_areas'', JBool True)])])]])])])) \<and>
         (\<exists>query1 flt. build_query request_params user_id = Inr query1 \<and>
            filtered_part query1 ''filter'' = Some flt \<and>
            (filter_admits flt doc \<longleftrightarrow>
               map_of doc ''not_in_public_site_areas'' \<noteq> Some (JBool True) \<or>
               (\<exists>u. user_id = Some u \<and> u \<noteq> [] \<and> map_of doc ''user'' = Some (JStr u))))"
proof
  obtain query1 where q1: "nipsa_filter query user_id = Inr query1"
    "filtered_part query1 ''query'' = Some q"
    "filtered_part query1 ''filter'' =
        Some (JObj [(''bool'', JObj [(''should'', JArr
          (JObj [(''not'', JObj [(''term'', JObj [(''not_in_public_site_areas'', JBool True)])])] #
           (case user_id of
              None \<Rightarrow> []
            | Some u \<Rightarrow> if u \<noteq> [] then [JObj [(''term'', JObj [(''user'', JStr u)])]] else [])))])])"
    using nipsa_filter_parts [OF assms, of user_id] by blast
  have "user_id = None \<or> user_id = Some [] \<longrightarrow>
      (case user_id of
         None \<Rightarrow> []
       | Some u \<Rightarrow> if u \<noteq> [] then [JObj [(''term'', JObj [(''user'', JStr u)])]] else []) = []"
    by auto
  then show "\<exists>query1 flt. nipsa_filter query user_id = Inr query1 \<and>
            filtered_part query1 ''filter'' = Some flt \<and>
            filtered_part query1 ''query'' = Some q \<and>
            (filter_admits flt doc \<longleftrightarrow>
               map_of doc ''not_in_public_site_areas'' \<noteq> Some (JBool True) \<or>
               (\<exists>u. user_id = Some u \<and> u \<noteq> [] \<and> map_of doc ''user'' = Some (JStr u))) \<and>
            (user_id = None \<or> user_id = Some [] \<longrightarrow>
               flt = JObj [(''bool'', JObj [(''should'', JArr
                 [JObj [(''not'', JObj [(''term'',
                    JObj [(''not_in_public_site_areas'', JBool True)])])]])])])"
    using q1 should_clauses_admit [of user_id doc] by auto
next
  obtain query0 q0 where b: "build_query request_params user_id = nipsa_filter query0 user_id"
    "map_of query0 ''query'' = Some q0"
    using build_query_nipsa_filter by blast
  show "\<exists>query1 flt. build_query request_params user_id = Inr query1 \<and>
            filtered_part query1 ''filter'' = Some flt \<and>
            (filter_admits flt doc \<longleftrightarrow>
               map_of doc ''not_in_public_site_areas'' \<noteq> Some (JBool True) \<or>
               (\<exists>u. user_id = Some u \<and> u \<noteq> [] \<and> map_of doc ''user'' = Some (JStr u)))"
    using nipsa_filter_parts [OF b(2), of user_id] b(1) should_clauses_admit [of user_id doc]
    by auto
qed

theorem nipsa_filter_admits_witness:
  "(\<exists>query1 flt. nipsa_filter [(''query'', JObj [(''match_all'', JObj [])])] (Some ''bob'') = Inr query1 \<and>
      filtered_part query1 ''filter'' = Some flt \<and>
      \<not> filter_admits flt [(''user'', JStr ''eve''), (''not_in_public_site_areas'', JBool True)]) \<and>
   (\<exists>query1 flt. nipsa_filter [(''query'', JObj [(''match_all'', JObj [])])] (Some ''bob'') = Inr query1 \<and>
      filtered_part query1 ''filter'' = Some flt \<and>
      filter_admits flt [(''user'', JStr ''bob''), (''not_in_public_site_areas'', JBool True)])"
  using nipsa_filter_admits
    [where query = "[(''query'', JObj [(''match_all'', JObj [])])]"
       and q = "JObj [(''match_all'', JObj [])]"
       and user_id = "Some ''bob''"
       and doc = "[(''user'', JStr ''eve''), (''not_in_public_site_areas'', JBool True)]"
       and request_params = "[]"]
    nipsa_filter_admits
    [where query = "[(''query'', JObj [(''match_all'', JObj [])])]"
       and q = "JObj [(''match_all'', JObj [])]"
       and user_id = "Some ''bob''"
       and doc = "[(''user'', JStr ''bob''), (''not_in_public_site_areas'', JBool True)]"
       and request_params = "[]"]
  by auto


section \<open>Pagination\<close>

lemma multidict_pop_None: "multidict_pop key items = None \<longleftrightarrow> map_of items key = None"
  by (induction items) (auto split: option.splits)

lemma multidict_pop_Some:
  "multidict_pop key items = Some (v, rest) \<Longrightarrow>
   map_of items key = Some v \<and> map fst rest = remove1 key (map fst items) \<and>
   (\<forall>k. k \<noteq> key \<longrightarrow> map_of rest k = map_of items k)"
  by (induction items arbitrary: rest) (auto split: option.splits if_splits)

lemma pop_non_negative_value:
  "fst (pop_non_negative key dflt items) =
     (case map_of items key of
        None \<Rightarrow> dflt
      | Some v \<Rightarrow> (case py_int v of None \<Rightarrow> dflt | Some n \<Rightarrow> if n < 0 then dflt else n))"
proof (cases "multidict_pop key items")
  case None
  then have "map_of items key = None"
    by (simp add: multidict_pop_None)
  with None show ?thesis
    by (simp add: pop_non_negative_def)
next
  case (Some r)
  obtain v rest where r: "r = (v, rest)" by (cases r)
  with Some have "map_of items key = Some v"
    using multidict_pop_Some by blast
  with Some r show ?thesis
    by (simp add: pop_non_negative_def split: option.splits)
qed

lemma pop_non_negative_rest:
  "k \<noteq> key \<Longrightarrow> map_of (snd (pop_non_negative key dflt items)) k = map_of items k"
proof (cases "multidict_pop key items")
  case None
  then show ?thesis by (simp add: pop_non_negative_def)
next
  case (Some r)
  obtain v rest where r: "r = (v, rest)" by (cases r)
  assume "k \<noteq> key"
  with Some r have "map_of rest k = map_of items k"
    using multidict_pop_Some by blast
  with Some r show ?thesis
    by (simp add: pop_non_negative_def split: option.splits)
qed

lemma build_query_from_size:
  "case build_query request_params user_id of
     Inl err \<Rightarrow> False
   | Inr query \<Rightarrow>
       map_of query ''from'' = Some (JNum (fst (pop_non_negative ''offset'' 0 request_params))) \<and>
       map_of query ''size'' =
         Some (JNum (fst (pop_non_negative ''limit'' 20
                            (snd (pop_non_negative ''offset'' 0 request_params)))))"
  by (simp add: build_query_def Let_def nipsa_filter_def map_of_dict_setitem split: prod.splits)

text \<open>
  C7. \<open>build_query\<close> always returns a query. Its \<^verbatim>\<open>from\<close> is 0 when \<^verbatim>\<open>offset\<close> is
  absent, is not a number for \<^verbatim>\<open>int\<close>, or is negative, and the number otherwise; its
  \<^verbatim>\<open>size\<close> is 20 when \<^verbatim>\<open>limit\<close> is absent, not a number or negative, and the number
  otherwise. When a key is given several times, the first value counts.
\<close>

theorem build_query_pagination:
  "\<exists>query. build_query request_params user_id = Inr query \<and>
     map_of query ''from'' =
       Some (JNum (case map_of request_params ''offset'' of
                     None \<Rightarrow> 0
                   | Some v \<Rightarrow> (case py_int v of None \<Rightarrow> 0 | Some n \<Rightarrow> if n < 0 then 0 else n))) \<and>
     map_of query ''size'' =
       Some (JNum (case map_of request_params ''limit'' of
                     None \<Rightarrow> 20
                   | Some v \<Rightarrow> (case py_int v of None \<Rightarrow> 20 | Some n \<Rightarrow> if n < 0 then 20 else n)))"
proof -
  have "map_of (snd (pop_non_negative ''offset'' 0 request_params)) ''limit'' =
      map_of request_params ''limit''"
    by (simp add: pop_non_negative_rest)
  then show ?thesis
    using build_query_from_size [of request_params user_id]
    by (cases "build_query request_params user_id") (simp_all add: pop_non_negative_value)
qed

theorem build_query_pagination_witness:
  "(\<exists>query. build_query [(''offset'', ''-1'')] None = Inr query \<and>
      map_of query ''from'' = Some (JNum 0) \<and> map_of query ''size'' = Some (JNum 20)) \<and>
   (\<exists>query. build_query [(''limit'', ''oops''), (''offset'', ''40'')] None = Inr query \<and>
      map_of query ''from'' = Some (JNum 40) \<and> map_of query ''size'' = Some (JNum 20))"
  using build_query_pagination [of "[(''offset'', ''-1'')]" None]
    build_query_pagination [of "[(''limit'', ''oops''), (''offset'', ''40'')]" None]
  by (simp add: py_int_def strip_def is_space_def digit_value_def)



section \<open>The empty search\<close>

lemma pop_non_negative_keys:
  "map fst (snd (pop_non_negative key dflt items)) = remove1 key (map fst items)"
proof (cases "multidict_pop key items")
  case None
  then have "map_of items key = None"
    by (simp add: multidict_pop_None)
  then have "key \<notin> set (map fst items)"
    by (simp add: map_of_eq_None_iff)
  with None show ?thesis
    by (simp add: pop_non_negative_def remove1_idem)
next
  case (Some r)
  obtain v rest where r: "r = (v, rest)" by (cases r)
  with Some have "map fst rest = remove1 key (map fst items)"
    using multidict_pop_Some by blast
  with Some r show ?thesis
    by (simp add: pop_non_negative_def split: option.splits)
qed

lemma multidict_pop_default_keys:
  "map fst (snd (multidict_pop_default key dflt items)) = remove1 key (map fst items)"
proof (cases "multidict_pop key items")
  case None
  then have "map_of items key = None"
    by (simp add: multidict_pop_None)
  then have "key \<notin> set (map fst items)"
    by (simp add: map_of_eq_None_iff)
  with None show ?thesis
    by (simp add: multidict_pop_default_def remove1_idem)
next
  case (Some r)
  obtain v rest where r: "r = (v, rest)" by (cases r)
  with Some have "map fst rest = remove1 key (map fst items)"
    using multidict_pop_Some by blast
  with Some r show ?thesis
    by (simp add: multidict_pop_default_def)
qed

text \<open>The parameters that are left when the match clauses are built.\<close>

lemma remaining_keys:
  "map fst (snd (multidict_pop_default ''order'' ''desc''
      (snd (multidict_pop_default ''sort'' ''updated''
        (snd (pop_non_negative ''limit'' 20
          (snd (pop_non_negative ''offset'' 0 request_params)))))))) =
   remove1 ''order'' (remove1 ''sort'' (remove1 ''limit'' (remove1 ''offset''
     (map fst request_params))))"
  by (simp add: pop_non_negative_keys multidict_pop_default_keys)

lemma remove1_chain_empty:
  assumes "set ks \<subseteq> {''offset'', ''limit'', ''sort'', ''order''}" and "distinct ks"
  shows "remove1 ''order'' (remove1 ''sort'' (remove1 ''limit'' (remove1 ''offset'' ks))) = []"
proof -
  have "remove1 ''order'' (remove1 ''sort'' (remove1 ''limit'' (remove1 ''offset'' ks))) =
      removeAll ''order'' (removeAll ''sort'' (removeAll ''limit'' (removeAll ''offset'' ks)))"
    using assms(2) by (simp add: distinct_remove1_removeAll distinct_removeAll)
  also have "\<dots> = filter (\<lambda>k. k \<notin> {''offset'', ''limit'', ''sort'', ''order''}) ks"
    by (induction ks) auto
  also have "\<dots> = []"
    using assms(1) by (auto simp: filter_empty_conv)
  finally show ?thesis .
qed

lemma remove1_distinctD:
  "distinct (remove1 a xs) \<Longrightarrow> a \<notin> set (remove1 a xs) \<Longrightarrow> distinct xs"
  by (induction xs) (auto split: if_splits)

lemma set_remove1_insert: "set xs \<subseteq> insert a (set (remove1 a xs))"
  by (induction xs) auto

lemma remove1_chain_emptyD:
  assumes "remove1 ''order'' (remove1 ''sort'' (remove1 ''limit'' (remove1 ''offset'' ks))) = []"
  shows "set ks \<subseteq> {''offset'', ''limit'', ''sort'', ''order''} \<and> distinct ks"
proof -
  let ?l1 = "remove1 ''offset'' ks"
  let ?l2 = "remove1 ''limit'' ?l1"
  let ?l3 = "remove1 ''sort'' ?l2"
  have s3: "set ?l3 \<subseteq> {''order''}"
    using set_remove1_insert [of ?l3 "''order''"] assms by simp
  have d3: "distinct ?l3"
    using remove1_distinctD [of "''order''" ?l3] assms by simp
  have s2: "set ?l2 \<subseteq> {''sort'', ''order''}"
    using set_remove1_insert [of ?l2 "''sort''"] s3 by auto
  have d2: "distinct ?l2"
    using remove1_distinctD [of "''sort''" ?l2] d3 s3 by auto
  have s1: "set ?l1 \<subseteq> {''limit'', ''sort'', ''order''}"
    using set_remove1_insert [of ?l1 "''limit''"] s2 by auto
  have d1: "distinct ?l1"
    using remove1_distinctD [of "''limit''" ?l1] d2 s2 by auto
  have s0: "set ks \<subseteq> {''offset'', ''limit'', ''sort'', ''order''}"
    using set_remove1_insert [of ks "''offset''"] s1 by auto
  have d0: "distinct ks"
    using remove1_distinctD [of "''offset''" ks] d1 s1 by auto
  show ?thesis using s0 d0 by simp
qed

lemma build_query_must:
  "case build_query request_params user_id of
     Inl err \<Rightarrow> False
   | Inr query \<Rightarrow>
       (filtered_part query ''query'' =
          Some (JObj [(''bool'', JObj [(''must'', JArr [JObj [(''match_all'', JObj [])]])])]) \<longleftrightarrow>
        snd (multidict_pop_default ''order'' ''desc''
              (snd (multidict_pop_default ''sort'' ''updated''
                (snd (pop_non_negative ''limit'' 20
                  (snd (pop_non_negative ''offset'' 0 request_params))))))) = [])"
  by (cases "snd (multidict_pop_default ''order'' ''desc''
              (snd (multidict_pop_default ''sort'' ''updated''
                (snd (pop_non_negative ''limit'' 20
                  (snd (pop_non_negative ''offset'' 0 request_params)))))))")
    (simp_all add: build_query_def Let_def case_prod_beta nipsa_filter_def map_of_dict_setitem
      filtered_part_def multidict_contains_def)

text \<open>
  C8. When the parameters hold nothing but \<^verbatim>\<open>offset\<close>, \<^verbatim>\<open>limit\<close>, \<^verbatim>\<open>sort\<close> and
  \<^verbatim>\<open>order\<close>, each at most once (or nothing at all), no match clause results and
  \<open>build_query\<close> puts the single clause \<^verbatim>\<open>{"match_all": {}}\<close> under \<^verbatim>\<open>must\<close>: the
  inner query matches every document.
\<close>

theorem build_query_match_all:
  assumes "set (map fst request_params) \<subseteq> {''offset'', ''limit'', ''sort'', ''order''}"
    and "distinct (map fst request_params)"
  shows "\<exists>query. build_query request_params user_id = Inr query \<and>
           filtered_part query ''query'' =
             Some (JObj [(''bool'', JObj [(''must'', JArr [JObj [(''match_all'', JObj [])]])])]) \<and>
           must_matches full_text
             (JObj [(''bool'', JObj [(''must'', JArr [JObj [(''match_all'', JObj [])]])])]) doc"
proof -
  have "map fst (snd (multidict_pop_default ''order'' ''desc''
      (snd (multidict_pop_default ''sort'' ''updated''
        (snd (pop_non_negative ''limit'' 20
          (snd (pop_non_negative ''offset'' 0 request_params)))))))) = []"
    using assms by (simp only: remaining_keys remove1_chain_empty)
  then have "snd (multidict_pop_default ''order'' ''desc''
      (snd (multidict_pop_default ''sort'' ''updated''
        (snd (pop_non_negative ''limit'' 20
          (snd (pop_non_negative ''offset'' 0 request_params))))))) = []"
    by simp
  then show ?thesis
    using build_query_must [of request_params user_id]
    by (cases "build_query request_params user_id") (auto simp: must_matches_def)
qed

theorem build_query_match_all_witness:
  "(\<exists>query. build_query [] None = Inr query \<and>
      filtered_part query ''query'' =
        Some (JObj [(''bool'', JObj [(''must'', JArr [JObj [(''match_all'', JObj [])]])])])) \<and>
   (\<exists>query. build_query [(''limit'', ''5''), (''order'', ''asc'')] (Some ''bob'') = Inr query \<and>
      filtered_part query ''query'' =
        Some (JObj [(''bool'', JObj [(''must'', JArr [JObj [(''match_all'', JObj [])]])])]))"
  using build_query_match_all
      [where request_params = "[]" and user_id = None and doc = "[]"
         and full_text = "\<lambda>clause doc. False"]
    build_query_match_all
      [where request_params = "[(''limit'', ''5''), (''order'', ''asc'')]"
         and user_id = "Some ''bob''" and doc = "[]" and full_text = "\<lambda>clause doc. False"]
  by auto

text \<open>
  The hypothesis of C8 is exact: whenever a key other than the four is present, or one
  of the four is given twice, a match clause results and no \<^verbatim>\<open>match_all\<close> is built.
\<close>

lemma match_all_exactly_when:
  "(\<exists>query. build_query request_params user_id = Inr query \<and>
      filtered_part query ''query'' =
        Some (JObj [(''bool'', JObj [(''must'', JArr [JObj [(''match_all'', JObj [])]])])])) \<longleftrightarrow>
   set (map fst request_params) \<subseteq> {''offset'', ''limit'', ''sort'', ''order''} \<and>
   distinct (map fst request_params)"
proof -
  let ?rest = "snd (multidict_pop_default ''order'' ''desc''
      (snd (multidict_pop_default ''sort'' ''updated''
        (snd (pop_non_negative ''limit'' 20
          (snd (pop_non_negative ''offset'' 0 request_params)))))))"
  have keys: "?rest = [] \<longleftrightarrow>
      set (map fst request_params) \<subseteq> {''offset'', ''limit'', ''sort'', ''order''} \<and>
      distinct (map fst request_params)"
  proof
    assume "?rest = []"
    then have "map fst ?rest = []" by simp
    then show "set (map fst request_params) \<subseteq> {''offset'', ''limit'', ''sort'', ''order''} \<and>
        distinct (map fst request_params)"
      by (simp only: remaining_keys remove1_chain_emptyD)
  next
    assume "set (map fst request_params) \<subseteq> {''offset'', ''limit'', ''sort'', ''order''} \<and>
        distinct (map fst request_params)"
    then have "map fst ?rest = []"
      by (simp only: remaining_keys remove1_chain_empty)
    then show "?rest = []" by simp
  qed
  show ?thesis
    using build_query_must [of request_params user_id] keys
    by (cases "build_query request_params user_id") auto
qed

end
